theory Spec2Isabelle
  imports Main "HOL-Library.Word"
begin

section \<open>The replay engine of the simulate command (cmd/simulate.go)\<close>

text \<open>
  The simulate command replays the per-category logs of an archive through a
  publish/subscribe interface. This theory embeds the subscription handling of
  \<^verbatim>\<open>Execute\<close>, the starting-slot computation \<^verbatim>\<open>getStartingSlot\<close> and the merge
  of \<^verbatim>\<open>RunSimulation\<close>.

  What is outside the embedding: opening, unzipping and deleting files (taken to
  succeed), logging, and the websocket writer that empties the output feed (the
  feed is the list of envelopes sent, oldest first, and a send never blocks).
  The JSON decoder of the Go library is a parameter \<open>U\<close> of every function that
  calls \<^verbatim>\<open>json.Unmarshal\<close>.
\<close>

subsection \<open>Data\<close>

type_synonym u64 = "64 word"

text \<open>A row of a log is a \<^verbatim>\<open>[]byte\<close>; \<^verbatim>\<open>len(row) == 0\<close> is \<open>row = []\<close>.\<close>

type_synonym bytes = string

text \<open>
  \<^verbatim>\<open>type DataFormat struct { Slot uint64; Pair *struct{}; Swap *struct{} }\<close>:
  a pointer to the empty struct is either nil (\<open>None\<close>) or not.
\<close>

record DataFormat =
  Slot :: u64
  Pair_ptr :: "unit option"
  Swap :: "unit option"

record JSONRPC =
  ID :: int
  SubscriptionID :: u64
  Method :: string
  Params :: bytes

text \<open>
  \<^verbatim>\<open>uint\<close> is 64 bits wide on every target the Makefile builds for. The output
  feed, the data directory and the port are not fields of the model.
\<close>

record SimulateTask =
  nextSubID :: u64
  pairsSubID :: u64
  swapsSubID :: u64

definition MethodStartSimulation :: string where
  "MethodStartSimulation = ''startSimulation''"

definition MethodNewPairSubscribe :: string where
  "MethodNewPairSubscribe = ''newPairSubscribe''"

definition MethodSwapSubscribe :: string where
  "MethodSwapSubscribe = ''swapSubscribe''"

definition NewSimulateTask :: SimulateTask where
  "NewSimulateTask = \<lparr>nextSubID = 1, pairsSubID = 0, swapsSubID = 0\<rparr>"

text \<open>The result of \<^verbatim>\<open>json.Unmarshal(row, &data)\<close>: the decoder's message, or the record.\<close>

type_synonym unmarshal = "bytes \<Rightarrow> string + DataFormat"

text \<open>\<^verbatim>\<open>errors.Wrap(err, "cant unmarshal event")\<close>\<close>

datatype error = CantUnmarshalEvent string

text \<open>
  How a loop of the replay ends: it runs to its end (\<open>Ok\<close>), it returns an error
  (\<open>Failed\<close>), or it waits forever on a receive from a channel that is empty and
  is never closed (\<open>Blocked\<close>). Each carries the state reached.
\<close>

datatype 'a outcome = Ok (reached: 'a) | Failed error (reached: 'a) | Blocked (reached: 'a)

subsection \<open>Channels and \<^verbatim>\<open>streamFromFile\<close>\<close>

text \<open>
  A \<^verbatim>\<open>chan []byte\<close> with one producer and one consumer, seen from the consumer:
  the rows still to be received, in order, and whether the producer closes the
  channel after the last of them.
\<close>

datatype chan = Chan (pending: "bytes list") (closes: bool)

text \<open>
  \<^verbatim>\<open>dataRow = <-dataChan\<close>: the next row; on a closed and drained channel the zero
  value (a nil slice, of length 0); \<open>None\<close> when the receive never returns.
\<close>

fun recv :: "chan \<Rightarrow> (bytes \<times> chan) option" where
  "recv (Chan (row # rows) c) = Some (row, Chan rows c)"
| "recv (Chan [] True) = Some ([], Chan [] True)"
| "recv (Chan [] False) = None"

text \<open>
  \<^verbatim>\<open>streamFromFile\<close>: the goroutine sends a copy of every line the scanner yields
  (an empty line is a line of length 0) and then closes the channel.
\<close>

definition streamFromFile :: "bytes list \<Rightarrow> chan" where
  "streamFromFile file = Chan file True"

subsection \<open>\<^verbatim>\<open>getStartingSlot\<close>\<close>

text \<open>
  For every unzipped file, the first line only (the scan loop ends in \<^verbatim>\<open>break\<close>);
  a file without lines leaves \<open>startingSlot\<close> as it is.
\<close>

fun getStartingSlot_loop :: "unmarshal \<Rightarrow> u64 \<Rightarrow> bytes list list \<Rightarrow> error + u64" where
  "getStartingSlot_loop U startingSlot [] = Inr startingSlot"
| "getStartingSlot_loop U startingSlot (file # unzippedFiles) =
     (case file of
        [] \<Rightarrow> getStartingSlot_loop U startingSlot unzippedFiles
      | row # _ \<Rightarrow>
          (case U row of
             Inl err \<Rightarrow> Inl (CantUnmarshalEvent err)
           | Inr data \<Rightarrow>
               getStartingSlot_loop U
                 (if Slot data < startingSlot \<or> startingSlot = 0 then Slot data else startingSlot)
                 unzippedFiles))"

definition getStartingSlot :: "unmarshal \<Rightarrow> bytes list list \<Rightarrow> error + u64" where
  "getStartingSlot U unzippedFiles = getStartingSlot_loop U 0 unzippedFiles"

subsection \<open>The merge of \<^verbatim>\<open>RunSimulation\<close>\<close>

text \<open>
  The three parallel slices \<^verbatim>\<open>dataChans\<close>, \<^verbatim>\<open>buffers\<close> and \<^verbatim>\<open>dones\<close> have the same
  length and are indexed together: entry \<open>i\<close> of each is one \<open>stream\<close>.
\<close>

record stream =
  dataChan :: chan
  buffer :: bytes
  done_flag :: bool

text \<open>What the loops write apart from the streams: the event counter and the output feed.\<close>

record sink =
  events :: int
  outputFeed :: "JSONRPC list"

text \<open>
  Lines 245 to 257: the envelopes sent for one decoded row. The variable \<^verbatim>\<open>ev\<close> is
  shared by the two \<^verbatim>\<open>if\<close> statements, which are independent of each other.
\<close>

definition post :: "SimulateTask \<Rightarrow> bytes \<Rightarrow> DataFormat \<Rightarrow> JSONRPC list" where
  "post o_task dataRow data =
     (let ev = \<lparr>ID = 0, SubscriptionID = 0, Method = [], Params = []\<rparr>;
          ev1 = (if pairsSubID o_task \<noteq> 0 \<and> Pair_ptr data \<noteq> None
                 then ev\<lparr>Method := ''newPairNotification'', Params := dataRow,
                         SubscriptionID := pairsSubID o_task\<rparr>
                 else ev);
          sent1 = (if pairsSubID o_task \<noteq> 0 \<and> Pair_ptr data \<noteq> None then [ev1] else []);
          ev2 = (if swapsSubID o_task \<noteq> 0 \<and> Swap data \<noteq> None
                 then ev1\<lparr>Method := ''swapNotification'', Params := dataRow,
                          SubscriptionID := swapsSubID o_task\<rparr>
                 else ev1);
          sent2 = (if swapsSubID o_task \<noteq> 0 \<and> Swap data \<noteq> None then [ev2] else [])
      in sent1 @ sent2)"

text \<open>Lines 219 to 224: the buffered row if there is one, else a receive.\<close>

definition next_row :: "stream \<Rightarrow> (bytes \<times> chan) option" where
  "next_row s = (if buffer s \<noteq> [] then Some (buffer s, dataChan s) else recv (dataChan s))"

text \<open>
  Lines 217 to 259, the inner \<^verbatim>\<open>for\<close> of stream \<open>i\<close> at cursor \<open>slot\<close>. A row of
  length 0 sets the done flag and breaks; a row that does not decode returns the
  error; a row of a later slot is kept in the buffer and breaks; any other row
  clears the buffer, is posted and counted, and the loop goes on.
\<close>

function drain :: "unmarshal \<Rightarrow> SimulateTask \<Rightarrow> u64 \<Rightarrow> stream \<Rightarrow> sink \<Rightarrow> (stream \<times> sink) outcome" where
  "drain U o_task slot s k =
     (case next_row s of
        None \<Rightarrow> Blocked (s, k)
      | Some (dataRow, ch) \<Rightarrow>
          if dataRow = [] then Ok (s\<lparr>dataChan := ch, done_flag := True\<rparr>, k)
          else
            (case U dataRow of
               Inl err \<Rightarrow> Failed (CantUnmarshalEvent err) (s\<lparr>dataChan := ch\<rparr>, k)
             | Inr data \<Rightarrow>
                 if Slot data > slot then Ok (s\<lparr>dataChan := ch, buffer := dataRow\<rparr>, k)
                 else drain U o_task slot (s\<lparr>dataChan := ch, buffer := []\<rparr>)
                        (k\<lparr>events := events k + 1,
                           outputFeed := outputFeed k @ post o_task dataRow data\<rparr>)))"
  by pat_completeness auto
termination
proof (relation "measure (\<lambda>(U, o_task, slot, s, k).
          2 * length (pending (dataChan s)) + (if buffer s \<noteq> [] then 1 else 0))", goal_cases)
  case 1
  show ?case by simp
next
  case (2 U o_task slot s k x dataRow ch data)
  then show ?case
    by (cases "dataChan s" rule: recv.cases)
       (auto simp: next_row_def split: if_splits)
qed

declare drain.simps [simp del]

text \<open>
  Lines 216 to 260: one cursor tick, the streams in the order of the slices. An
  error or a blocked receive in one stream leaves the later streams untouched.
\<close>

fun tick :: "unmarshal \<Rightarrow> SimulateTask \<Rightarrow> u64 \<Rightarrow> stream list \<Rightarrow> sink \<Rightarrow> (stream list \<times> sink) outcome" where
  "tick U o_task slot [] k = Ok ([], k)"
| "tick U o_task slot (s # ss) k =
     (case drain U o_task slot s k of
        Ok (s', k') \<Rightarrow> map_outcome (\<lambda>(ss', k''). (s' # ss', k'')) (tick U o_task slot ss k')
      | Failed err (s', k') \<Rightarrow> Failed err (s' # ss, k')
      | Blocked (s', k') \<Rightarrow> Blocked (s' # ss, k'))"

text \<open>Lines 263 to 266: \<^verbatim>\<open>done\<close> is the conjunction of all flags.\<close>

definition all_done :: "stream list \<Rightarrow> bool" where
  "all_done ss = list_all done_flag ss"

lemma map_outcome_eq_Ok:
  "map_outcome f r = Ok y \<longleftrightarrow> (\<exists>x. r = Ok x \<and> y = f x)"
  by (cases r) auto

lemma map_outcome_eq_Failed:
  "map_outcome f r = Failed e y \<longleftrightarrow> (\<exists>x. r = Failed e x \<and> y = f x)"
  by (cases r) auto

lemma map_outcome_eq_Blocked:
  "map_outcome f r = Blocked y \<longleftrightarrow> (\<exists>x. r = Blocked x \<and> y = f x)"
  by (cases r) auto

text \<open>
  A stream that leaves its inner loop by a \<^verbatim>\<open>break\<close> has its flag set or holds a
  buffered row of a later slot; so a tick after which some flag is not set was
  not at the largest cursor value, and \<^verbatim>\<open>slot++\<close> does not wrap.
\<close>

lemma drain_Ok_post:
  "drain U o_task slot s k = Ok (s', k') \<Longrightarrow>
     done_flag s' \<or> (\<exists>d. U (buffer s') = Inr d \<and> slot < Slot d)"
proof (induction U o_task slot s k rule: drain.induct)
  case (1 U o_task slot s k)
  show ?case using "1.prems" "1.IH"
    apply (subst (asm) drain.simps)
    apply (auto split: option.splits if_splits sum.splits prod.splits)
    done
qed

lemma tick_Ok_cases:
  assumes "tick U o_task slot (s # ss) k = Ok (ss', k')"
  obtains s1 k1 ss1 where "drain U o_task slot s k = Ok (s1, k1)"
    and "tick U o_task slot ss k1 = Ok (ss1, k')" and "ss' = s1 # ss1"
  using assms by (auto split: outcome.splits prod.splits simp: map_outcome_eq_Ok)

lemma tick_Ok_post:
  "tick U o_task slot ss k = Ok (ss', k') \<Longrightarrow> s' \<in> set ss' \<Longrightarrow>
     done_flag s' \<or> (\<exists>d. U (buffer s') = Inr d \<and> slot < Slot d)"
proof (induction ss arbitrary: k ss' k')
  case Nil then show ?case by simp
next
  case (Cons s ss)
  from Cons.prems(1) obtain s1 k1 ss1 where
    d: "drain U o_task slot s k = Ok (s1, k1)" and
    t: "tick U o_task slot ss k1 = Ok (ss1, k')" and ss': "ss' = s1 # ss1"
    by (rule tick_Ok_cases)
  show ?case
  proof (cases "s' = s1")
    case True
    with drain_Ok_post[OF d] show ?thesis by simp
  next
    case False
    with Cons.prems(2) ss' have "s' \<in> set ss1" by simp
    with Cons.IH[OF t] show ?thesis by simp
  qed
qed

lemma tick_not_done_cursor:
  assumes "tick U o_task slot ss k = Ok (ss', k')" "\<not> all_done ss'"
  shows "slot \<noteq> - 1"
proof -
  from assms(2) obtain s' where s': "s' \<in> set ss'" "\<not> done_flag s'"
    by (auto simp: all_done_def list_all_iff)
  with tick_Ok_post[OF assms(1)] obtain d :: DataFormat where "slot < Slot d" by blast
  then show "slot \<noteq> - 1" by auto
qed

lemma unat_succ: "(w :: u64) \<noteq> - 1 \<Longrightarrow> unat (w + 1) = Suc (unat w)"
proof -
  assume "w \<noteq> - 1"
  then have "1 + w \<noteq> 0" by (simp add: add_eq_0_iff)
  then show ?thesis using unatSuc[of w] by (simp add: add.commute)
qed

text \<open>
  Lines 215 to 271: the merge of one segment. After a tick, the loop ends when
  every flag is set; otherwise \<^verbatim>\<open>slot++\<close> and the next tick. The cursor it ends
  with is the cursor of the last tick.
\<close>

function merge_loop ::
  "unmarshal \<Rightarrow> SimulateTask \<Rightarrow> u64 \<Rightarrow> stream list \<Rightarrow> sink \<Rightarrow> (u64 \<times> stream list \<times> sink) outcome" where
  "merge_loop U o_task slot ss k =
     (case tick U o_task slot ss k of
        Ok (ss', k') \<Rightarrow>
          if all_done ss' then Ok (slot, ss', k')
          else merge_loop U o_task (slot + 1) ss' k'
      | Failed err (ss', k') \<Rightarrow> Failed err (slot, ss', k')
      | Blocked (ss', k') \<Rightarrow> Blocked (slot, ss', k'))"
  by pat_completeness auto
termination
proof (relation "measure (\<lambda>(U, o_task, slot, ss, k). 2 ^ 64 - unat slot)", goal_cases)
  case 1
  show ?case by simp
next
  case (2 U o_task slot ss k x ss' k')
  then have "slot \<noteq> - 1" by (auto dest: tick_not_done_cursor)
  then have "unat (slot + 1) = Suc (unat slot)" by (rule unat_succ)
  moreover have "unat slot < 2 ^ 64" using unsigned_less[of slot] by simp
  ultimately show ?case by simp
qed

declare merge_loop.simps [simp del]

text \<open>
  Lines 204 to 214: one channel per unzipped file, in the order of the archive,
  with an empty buffer and a flag that is not set.
\<close>

definition init_streams :: "bytes list list \<Rightarrow> stream list" where
  "init_streams unzippedFiles =
     map (\<lambda>v. \<lparr>dataChan = streamFromFile v, buffer = [], done_flag = False\<rparr>) unzippedFiles"

text \<open>
  Lines 160 to 272: the loop over the data files. A data file is the list of its
  unzipped files, each the list of its lines. The starting slot is computed for
  \<open>dataFileNum = 0\<close> only (with \<^verbatim>\<open>slot, err = ...\<close>, so that an error leaves 0 in
  \<open>slot\<close>); \<open>slot\<close> is the one variable of all iterations.
\<close>

fun files_loop ::
  "unmarshal \<Rightarrow> SimulateTask \<Rightarrow> nat \<Rightarrow> u64 \<Rightarrow> sink \<Rightarrow> bytes list list list \<Rightarrow> (u64 \<times> sink) outcome" where
  "files_loop U o_task dataFileNum slot k [] = Ok (slot, k)"
| "files_loop U o_task dataFileNum slot k (unzippedFiles # dataFiles) =
     (case (if dataFileNum = 0 then getStartingSlot U unzippedFiles else Inr slot) of
        Inl err \<Rightarrow> Failed err (0, k)
      | Inr slot' \<Rightarrow>
          (case merge_loop U o_task slot' (init_streams unzippedFiles) k of
             Ok (slot'', ss, k') \<Rightarrow> files_loop U o_task (dataFileNum + 1) slot'' k' dataFiles
           | Failed err (slot'', ss, k') \<Rightarrow> Failed err (slot'', k')
           | Blocked (slot'', ss, k') \<Rightarrow> Blocked (slot'', k')))"

text \<open>\<^verbatim>\<open>RunSimulation\<close>: \<^verbatim>\<open>slot := uint64(0)\<close>, \<^verbatim>\<open>events := 0\<close>, and the feed as it is found.\<close>

definition RunSimulation ::
  "unmarshal \<Rightarrow> SimulateTask \<Rightarrow> JSONRPC list \<Rightarrow> bytes list list list \<Rightarrow> (u64 \<times> sink) outcome" where
  "RunSimulation U o_task feed dataFiles =
     files_loop U o_task 0 0 \<lparr>events = 0, outputFeed = feed\<rparr> dataFiles"

subsection \<open>The message loop of \<^verbatim>\<open>Execute\<close>\<close>

text \<open>
  What \<^verbatim>\<open>c.ReadMessage\<close> and \<^verbatim>\<open>json.Unmarshal\<close> give the handler, one value per
  round of its loop: a read error, a message that does not decode, or a request.
  A request carries whether the \<^verbatim>\<open>c.WriteMessage\<close> of its reply succeeds.
\<close>

datatype incoming = ReadError | UnmarshalError | Request JSONRPC bool

text \<open>The reply \<^verbatim>\<open>{"id":%d,"result":{"subscription_id":%d}}\<close>.\<close>

record reply =
  reply_id :: int
  subscription_id :: u64

text \<open>
  Lines 86 to 144. The loop ends at a read or decode error and at
  \<^verbatim>\<open>startSimulation\<close> (the flag returned says which); in a subscribe case a
  failed write breaks out of the \<^verbatim>\<open>switch\<close> only, before \<^verbatim>\<open>o.nextSubID++\<close>. The
  replies are those whose write succeeded.
\<close>

fun websocket_loop ::
  "SimulateTask \<Rightarrow> reply list \<Rightarrow> incoming list \<Rightarrow> SimulateTask \<times> reply list \<times> bool" where
  "websocket_loop o_task sent [] = (o_task, sent, False)"
| "websocket_loop o_task sent (ReadError # ms) = (o_task, sent, False)"
| "websocket_loop o_task sent (UnmarshalError # ms) = (o_task, sent, False)"
| "websocket_loop o_task sent (Request jsonrpc ok # ms) =
     (if Method jsonrpc = MethodStartSimulation then (o_task, sent, True)
      else if Method jsonrpc = MethodNewPairSubscribe then
        (let o1 = o_task\<lparr>pairsSubID := nextSubID o_task\<rparr> in
         if ok
         then websocket_loop (o1\<lparr>nextSubID := nextSubID o1 + 1\<rparr>)
                (sent @ [\<lparr>reply_id = ID jsonrpc, subscription_id = pairsSubID o1\<rparr>]) ms
         else websocket_loop o1 sent ms)
      else if Method jsonrpc = MethodSwapSubscribe then
        (let o1 = o_task\<lparr>swapsSubID := nextSubID o_task\<rparr> in
         if ok
         then websocket_loop (o1\<lparr>nextSubID := nextSubID o1 + 1\<rparr>)
                (sent @ [\<lparr>reply_id = ID jsonrpc, subscription_id = swapsSubID o1\<rparr>]) ms
         else websocket_loop o1 sent ms)
      else websocket_loop o_task sent ms)"

subsection \<open>A decoder for the examples\<close>

text \<open>
  The theorems below hold for every decoder. Where one is evaluated on a
  concrete archive, the rows are written in a small format that this decoder
  reads: the first character says which discriminator fields are present
  (\<open>P\<close> pair, \<open>S\<close> swap, \<open>B\<close> both, \<open>N\<close> neither) and the number of characters
  after it is the slot. As with \<^verbatim>\<open>json.Unmarshal\<close>, a row of length 0 and a row
  that starts with any other character do not decode.
\<close>

definition example_unmarshal :: unmarshal where
  "example_unmarshal row =
     (case row of
        [] \<Rightarrow> Inl ''unexpected end of JSON input''
      | t # ds \<Rightarrow>
          if t = CHR ''P'' then Inr \<lparr>Slot = of_nat (length ds), Pair_ptr = Some (), Swap = None\<rparr>
          else if t = CHR ''S'' then Inr \<lparr>Slot = of_nat (length ds), Pair_ptr = None, Swap = Some ()\<rparr>
          else if t = CHR ''B'' then Inr \<lparr>Slot = of_nat (length ds), Pair_ptr = Some (), Swap = Some ()\<rparr>
          else if t = CHR ''N'' then Inr \<lparr>Slot = of_nat (length ds), Pair_ptr = None, Swap = None\<rparr>
          else Inl ''invalid character'')"

text \<open>A task with both categories subscribed: pairs first, then swaps.\<close>

definition example_task :: SimulateTask where
  "example_task = \<lparr>nextSubID = 3, pairsSubID = 1, swapsSubID = 2\<rparr>"

subsection \<open>Predicates of the statements\<close>


text \<open>The feed of \<open>k'\<close> is the feed of \<open>k\<close> followed by envelopes that satisfy \<open>P\<close>.\<close>

definition extends :: "(JSONRPC \<Rightarrow> bool) \<Rightarrow> sink \<Rightarrow> sink \<Rightarrow> bool" where
  "extends P k k' = (\<exists>E. outputFeed k' = outputFeed k @ E \<and> list_all P E)"

text \<open>The rows a stream still holds: the buffered row, then the rows to be received.\<close>

definition rows :: "stream \<Rightarrow> bytes list" where
  "rows s = (if buffer s = [] then [] else [buffer s]) @ pending (dataChan s)"



text \<open>
  The requests that the message loop handles before it ends, and among them the
  subscribe requests whose reply is written.
\<close>

definition request_ID :: "incoming \<Rightarrow> int" where
  "request_ID m = (case m of Request jsonrpc ok \<Rightarrow> ID jsonrpc | _ \<Rightarrow> 0)"

definition served :: "incoming list \<Rightarrow> incoming list" where
  "served ms =
     takeWhile (\<lambda>m. case m of Request jsonrpc ok \<Rightarrow> Method jsonrpc \<noteq> MethodStartSimulation
                              | _ \<Rightarrow> False) ms"

definition answered :: "incoming list \<Rightarrow> incoming list" where
  "answered ms =
     filter (\<lambda>m. case m of
                   Request jsonrpc ok \<Rightarrow>
                     ok \<and> (Method jsonrpc = MethodNewPairSubscribe
                           \<or> Method jsonrpc = MethodSwapSubscribe)
                 | _ \<Rightarrow> False) (served ms)"

text \<open>
  The temporal key of a row and of an envelope (the slot of the row it carries),
  the envelopes sent for a row, and what makes a row a record: it has length at
  least one and it decodes.
\<close>

definition key :: "unmarshal \<Rightarrow> bytes \<Rightarrow> u64" where
  "key U row = (case U row of Inl err \<Rightarrow> 0 | Inr data \<Rightarrow> Slot data)"







text \<open>
  What the statement on the order of the output asks of an archive. A log is
  valid when its rows are records whose keys do not decrease. The segments are in
  time order when no key of a later segment is below a key of an earlier one. The
  first keys are those of the first rows of the logs of a segment.
\<close>

definition first_keys :: "unmarshal \<Rightarrow> bytes list list \<Rightarrow> u64 list" where
  "first_keys U seg = map (\<lambda>l. key U (hd l)) (filter (\<lambda>l. l \<noteq> []) seg)"





section \<open>Properties\<close>

subsection \<open>Envelopes of one row\<close>

lemma post_eq:
  "post o_task row d =
     (if pairsSubID o_task \<noteq> 0 \<and> Pair_ptr d \<noteq> None
      then [\<lparr>ID = 0, SubscriptionID = pairsSubID o_task, Method = ''newPairNotification'', Params = row\<rparr>]
      else []) @
     (if swapsSubID o_task \<noteq> 0 \<and> Swap d \<noteq> None
      then [\<lparr>ID = 0, SubscriptionID = swapsSubID o_task, Method = ''swapNotification'', Params = row\<rparr>]
      else [])"
  by (simp add: post_def Let_def)

text \<open>
  Claim C5, as amended. A row with exactly one discriminator field is routed to
  that one category: at most one envelope is sent for it, with the row as its
  parameters and the method name of that category. In general one envelope is
  sent for each subscribed category whose field is present, so a row with both
  fields and both subscriptions is sent twice.
\<close>

theorem post_routes_by_discriminator:
  "length (post o_task row d) =
     (if pairsSubID o_task \<noteq> 0 \<and> Pair_ptr d \<noteq> None then 1 else 0) +
     (if swapsSubID o_task \<noteq> 0 \<and> Swap d \<noteq> None then 1 else 0)
   \<and> (Pair_ptr d = None \<or> Swap d = None \<longrightarrow>
        length (post o_task row d) \<le> 1 \<and>
        (\<forall>ev \<in> set (post o_task row d).
           Params ev = row \<and>
           Method ev = (if Pair_ptr d \<noteq> None then ''newPairNotification'' else ''swapNotification'')))"
  by (auto simp: post_eq)

theorem post_routes_by_discriminator_witness:
  "Swap \<lparr>Slot = 1, Pair_ptr = Some (), Swap = None\<rparr> = None
   \<and> post example_task ''P-'' \<lparr>Slot = 1, Pair_ptr = Some (), Swap = None\<rparr>
       = [\<lparr>ID = 0, SubscriptionID = 1, Method = ''newPairNotification'', Params = ''P-''\<rparr>]
   \<and> length (post example_task ''P-'' \<lparr>Slot = 1, Pair_ptr = Some (), Swap = None\<rparr>) \<le> 1
   \<and> map Method (post example_task ''P-'' \<lparr>Slot = 1, Pair_ptr = Some (), Swap = None\<rparr>)
       = [''newPairNotification'']"
  using post_routes_by_discriminator [of example_task "''P-''" "\<lparr>Slot = 1, Pair_ptr = Some (), Swap = None\<rparr>"]
  by (simp add: post_eq example_task_def)

text \<open>
  Claim C5 as it is written fails: a row with both fields present, replayed with
  both categories subscribed, gives two envelopes.
\<close>

theorem both_discriminators_two_envelopes:
  "example_unmarshal ''B-'' = Inr \<lparr>Slot = 1, Pair_ptr = Some (), Swap = Some ()\<rparr>
   \<and> RunSimulation example_unmarshal example_task [] [[[''B-'']]] =
     Ok (1, \<lparr>events = 1, outputFeed =
        [\<lparr>ID = 0, SubscriptionID = 1, Method = ''newPairNotification'', Params = ''B-''\<rparr>,
         \<lparr>ID = 0, SubscriptionID = 2, Method = ''swapNotification'', Params = ''B-''\<rparr>]\<rparr>)"
  by code_simp

subsection \<open>The starting slot\<close>

text \<open>
  Claim C4 at a first record of slot 0. The test \<^verbatim>\<open>startingSlot == 0\<close> takes the
  value 0 for "not set yet": with first records of slots 0 and 5 the result is 5,
  and the least of them is 0.
\<close>

theorem starting_slot_zero_first_key:
  "example_unmarshal ''P'' = Inr \<lparr>Slot = 0, Pair_ptr = Some (), Swap = None\<rparr>
   \<and> example_unmarshal ''S-----'' = Inr \<lparr>Slot = 5, Pair_ptr = None, Swap = Some ()\<rparr>
   \<and> getStartingSlot example_unmarshal [[''P''], [''S-----'']] = Inr 5"
  by code_simp

subsection \<open>Empty lines\<close>

lemma next_row_done_flag [simp]: "next_row (s\<lparr>done_flag := b\<rparr>) = next_row s"
  by (simp add: next_row_def)

lemma drain_flag_set:
  "drain U o_task slot (s\<lparr>done_flag := True\<rparr>) k =
     map_outcome (\<lambda>(s', k'). (s'\<lparr>done_flag := True\<rparr>, k')) (drain U o_task slot s k)"
proof (induction U o_task slot s k rule: drain.induct)
  case (1 U o_task slot s k)
  have comm: "s\<lparr>done_flag := True, dataChan := ch, buffer := []\<rparr> =
      (s\<lparr>dataChan := ch, buffer := []\<rparr>)\<lparr>done_flag := True\<rparr>" for ch
    by simp
  show ?case
    apply (subst drain.simps)
    apply (subst (2) drain.simps)
    apply (simp only: next_row_done_flag comm)
    using "1.IH"
    apply (auto split: option.splits sum.splits)
    done
qed

lemma drain_empty_line:
  assumes "buffer s = []" "dataChan s = Chan ([] # rest) cl"
  shows "drain U o_task slot s k = Ok (s\<lparr>dataChan := Chan rest cl, done_flag := True\<rparr>, k)"
  using assms by (subst drain.simps) (simp add: next_row_def)

text \<open>
  Claim C10, as amended. When the next row of a stream is a line of length 0, the
  inner loop of that stream sets the done flag and breaks: no error, nothing sent,
  and the rows after the empty line stay in the channel. The flag is never read
  by the inner loop: with the flag set, a later tick receives and handles those
  rows as it would without it.
\<close>

theorem empty_line_sets_flag_only:
  "(buffer s = [] \<and> dataChan s = Chan ([] # rest) cl \<longrightarrow>
      drain U o_task slot s k = Ok (s\<lparr>dataChan := Chan rest cl, done_flag := True\<rparr>, k))
   \<and> drain U o_task slot (s\<lparr>done_flag := True\<rparr>) k =
       map_outcome (\<lambda>(s', k'). (s'\<lparr>done_flag := True\<rparr>, k')) (drain U o_task slot s k)"
  by (intro conjI impI) (auto intro: drain_empty_line drain_flag_set)

theorem empty_line_sets_flag_only_witness:
  "buffer \<lparr>dataChan = Chan ['''', ''P--''] True, buffer = [], done_flag = False\<rparr> = []
   \<and> dataChan \<lparr>dataChan = Chan ['''', ''P--''] True, buffer = [], done_flag = False\<rparr>
       = Chan ([] # [''P--'']) True
   \<and> drain example_unmarshal example_task 1
        \<lparr>dataChan = Chan ['''', ''P--''] True, buffer = [], done_flag = False\<rparr>
        \<lparr>events = 0, outputFeed = []\<rparr>
      = Ok (\<lparr>dataChan = Chan [''P--''] True, buffer = [], done_flag = True\<rparr>,
            \<lparr>events = 0, outputFeed = []\<rparr>)"
  using empty_line_sets_flag_only [of
      "\<lparr>dataChan = Chan ['''', ''P--''] True, buffer = [], done_flag = False\<rparr>"
      "[''P--'']" True example_unmarshal example_task 1 "\<lparr>events = 0, outputFeed = []\<rparr>"]
  by simp

text \<open>
  Claim C10 as it is written fails: the record after the empty line of the first
  log is sent, in the tick after the one that met the empty line.
\<close>

theorem empty_line_later_rows_emitted:
  "RunSimulation example_unmarshal example_task [] [[[''P-'', '''', ''P--''], [''S-'', ''S---'']]] =
     Ok (3, \<lparr>events = 4, outputFeed =
        [\<lparr>ID = 0, SubscriptionID = 1, Method = ''newPairNotification'', Params = ''P-''\<rparr>,
         \<lparr>ID = 0, SubscriptionID = 2, Method = ''swapNotification'', Params = ''S-''\<rparr>,
         \<lparr>ID = 0, SubscriptionID = 1, Method = ''newPairNotification'', Params = ''P--''\<rparr>,
         \<lparr>ID = 0, SubscriptionID = 2, Method = ''swapNotification'', Params = ''S---''\<rparr>]\<rparr>)"
  by code_simp

subsection \<open>The cursor\<close>







subsection \<open>What is sent, and when\<close>




lemma extends_refl [simp]: "extends P k k"
  by (simp add: extends_def)




lemma reached_map_outcome [simp]: "reached (map_outcome f r) = f (reached r)"
  by (cases r) auto















subsection \<open>Rows that do not decode\<close>








subsection \<open>The cases of the inner loop\<close>










lemma rows_after [simp]:
  "rows (s\<lparr>dataChan := ch, buffer := []\<rparr>) = pending ch"
  "row \<noteq> [] \<Longrightarrow> rows (s\<lparr>dataChan := ch, buffer := row\<rparr>) = row # pending ch"
  by (simp_all add: rows_def)

subsection \<open>When the merge ends\<close>















subsection \<open>Subscriber ids\<close>

lemma answered_simps:
  "answered [] = []"
  "answered (ReadError # ms) = []"
  "answered (UnmarshalError # ms) = []"
  "Method j = MethodStartSimulation \<Longrightarrow> answered (Request j ok # ms) = []"
  "Method j \<noteq> MethodStartSimulation \<Longrightarrow>
     answered (Request j ok # ms) =
       (if ok \<and> (Method j = MethodNewPairSubscribe \<or> Method j = MethodSwapSubscribe)
        then Request j ok # answered ms else answered ms)"
  by (simp_all add: answered_def served_def)

lemma method_names_differ:
  "MethodNewPairSubscribe \<noteq> MethodStartSimulation"
  "MethodSwapSubscribe \<noteq> MethodStartSimulation"
  "MethodSwapSubscribe \<noteq> MethodNewPairSubscribe"
  by (simp_all add: MethodNewPairSubscribe_def MethodStartSimulation_def MethodSwapSubscribe_def)

lemma websocket_loop_replies:
  "websocket_loop o_task sent ms = (o', sent', started) \<Longrightarrow>
     \<exists>R. sent' = sent @ R
       \<and> map reply_id R = map request_ID (answered ms)
       \<and> map subscription_id R = map (\<lambda>i. nextSubID o_task + of_nat i) [0..<length R]"
proof (induction o_task sent ms arbitrary: o' sent' started rule: websocket_loop.induct)
  case (1 o_task sent)
  then show ?case by (simp add: answered_simps)
next
  case (2 o_task sent ms)
  then show ?case by (simp add: answered_simps)
next
  case (3 o_task sent ms)
  then show ?case by (simp add: answered_simps)
next
  case (4 o_task sent jsonrpc ok ms)
  show ?case
  proof (cases "Method jsonrpc = MethodStartSimulation")
    case True
    with "4.prems" show ?thesis by (simp add: answered_simps)
  next
    case ns: False
    let ?sub = "Method jsonrpc = MethodNewPairSubscribe \<or> Method jsonrpc = MethodSwapSubscribe"
    show ?thesis
    proof (cases "?sub \<and> ok")
      case False
      then consider (other) "\<not> ?sub" | (fail) "?sub" "\<not> ok" by blast
      then show ?thesis
      proof cases
        case other
        with ns "4.prems" have "websocket_loop o_task sent ms = (o', sent', started)" by simp
        from "4.IH"(5)[OF ns _ _ this] other ns show ?thesis
          by (simp add: answered_simps)
      next
        case fail
        show ?thesis
        proof (cases "Method jsonrpc = MethodNewPairSubscribe")
          case True
          with ns fail "4.prems"
          have "websocket_loop (o_task\<lparr>pairsSubID := nextSubID o_task\<rparr>) sent ms = (o', sent', started)"
            by (simp add: Let_def)
          from "4.IH"(2)[OF ns True refl _ this] fail ns show ?thesis
            by (simp add: answered_simps)
        next
          case np: False
          with fail have sw: "Method jsonrpc = MethodSwapSubscribe" by simp
          with ns np fail "4.prems"
          have "websocket_loop (o_task\<lparr>swapsSubID := nextSubID o_task\<rparr>) sent ms = (o', sent', started)"
            by (simp add: Let_def)
          from "4.IH"(4)[OF ns np sw refl _ this] fail ns show ?thesis
            by (simp add: answered_simps)
        qed
      qed
    next
      case True
      then have ok: ok and sub: ?sub by simp_all
      show ?thesis
      proof (cases "Method jsonrpc = MethodNewPairSubscribe")
        case p: True
        let ?o1 = "o_task\<lparr>pairsSubID := nextSubID o_task\<rparr>"
        from ns p ok "4.prems"
        have "websocket_loop (?o1\<lparr>nextSubID := nextSubID ?o1 + 1\<rparr>)
            (sent @ [\<lparr>reply_id = ID jsonrpc, subscription_id = pairsSubID ?o1\<rparr>]) ms = (o', sent', started)"
          by (simp add: Let_def)
        from "4.IH"(1)[OF ns p refl ok this] obtain R where
          R: "sent' = (sent @ [\<lparr>reply_id = ID jsonrpc, subscription_id = pairsSubID ?o1\<rparr>]) @ R"
             "map reply_id R = map request_ID (answered ms)"
             "map subscription_id R = map (\<lambda>i. nextSubID o_task + 1 + of_nat i) [0..<length R]"
          by auto
        let ?R = "\<lparr>reply_id = ID jsonrpc, subscription_id = nextSubID o_task\<rparr> # R"
        have "map subscription_id ?R = map (\<lambda>i. nextSubID o_task + of_nat i) [0..<length ?R]"
          using R(3) by (simp add: upt_conv_Cons del: upt_Suc) (simp add: map_Suc_upt[symmetric] add.assoc del: upt_Suc)
        with R(1,2) ns ok sub show ?thesis
          by (intro exI[of _ ?R]) (simp add: answered_simps request_ID_def)
      next
        case np: False
        with sub have sw: "Method jsonrpc = MethodSwapSubscribe" by simp
        let ?o1 = "o_task\<lparr>swapsSubID := nextSubID o_task\<rparr>"
        from ns np sw ok "4.prems"
        have "websocket_loop (?o1\<lparr>nextSubID := nextSubID ?o1 + 1\<rparr>)
            (sent @ [\<lparr>reply_id = ID jsonrpc, subscription_id = swapsSubID ?o1\<rparr>]) ms = (o', sent', started)"
          by (simp add: Let_def)
        from "4.IH"(3)[OF ns np sw refl ok this] obtain R where
          R: "sent' = (sent @ [\<lparr>reply_id = ID jsonrpc, subscription_id = swapsSubID ?o1\<rparr>]) @ R"
             "map reply_id R = map request_ID (answered ms)"
             "map subscription_id R = map (\<lambda>i. nextSubID o_task + 1 + of_nat i) [0..<length R]"
          by auto
        let ?R = "\<lparr>reply_id = ID jsonrpc, subscription_id = nextSubID o_task\<rparr> # R"
        have "map subscription_id ?R = map (\<lambda>i. nextSubID o_task + of_nat i) [0..<length ?R]"
          using R(3) by (simp add: upt_conv_Cons del: upt_Suc) (simp add: map_Suc_upt[symmetric] add.assoc del: upt_Suc)
        with R(1,2) ns ok sub show ?thesis
          by (intro exI[of _ ?R]) (simp add: answered_simps request_ID_def)
      qed
    qed
  qed
qed

lemma unat_of_nat_u64: "n < 2 ^ 64 \<Longrightarrow> unat (of_nat n :: u64) = n"
  by (simp add: unat_of_nat)

lemma ids_strictly_increasing:
  assumes "unat (a :: u64) + n < 2 ^ 64"
  shows "sorted_wrt (<) (map (\<lambda>i. a + of_nat i) [0..<n])"
proof -
  have u: "unat (a + of_nat m) = unat a + m" if "m < n" for m
  proof -
    from that assms have m: "m < 2 ^ 64" and s: "unat a + m < 2 ^ 64" by simp_all
    from m have "unat (of_nat m :: u64) = m" by (rule unat_of_nat_u64)
    with s show ?thesis using unat_add_lem[of a "of_nat m"] by simp
  qed
  have "a + of_nat i < a + of_nat j" if "i < j" "j < n" for i j
    using that u[of i] u[of j] by (simp add: word_less_nat_alt)
  then show ?thesis by (simp add: sorted_wrt_iff_nth_less)
qed

text \<open>
  Claim C9. The replies of a session are one for each subscribe request handled
  whose reply is written, in the order of the requests; their ids are the
  consecutive values from \<open>nextSubID\<close> on, so they increase strictly and no two are
  equal, whichever categories are subscribed and however often. The counter is a
  64-bit value: the statement is for sessions that do not exhaust it.
\<close>

theorem subscriber_ids_increase:
  assumes "websocket_loop o_task [] ms = (o', sent, started)"
    and "unat (nextSubID o_task) + length ms < 2 ^ 64"
  shows "map reply_id sent = map request_ID (answered ms)
    \<and> map subscription_id sent = map (\<lambda>i. nextSubID o_task + of_nat i) [0..<length sent]
    \<and> sorted_wrt (<) (map subscription_id sent)
    \<and> distinct (map subscription_id sent)"
proof -
  from websocket_loop_replies[OF assms(1)] have
    r: "map reply_id sent = map request_ID (answered ms)" and
    i: "map subscription_id sent = map (\<lambda>i. nextSubID o_task + of_nat i) [0..<length sent]"
    by simp_all
  from r have "length sent = length (answered ms)" by (metis length_map)
  also have "\<dots> \<le> length ms"
    unfolding answered_def served_def
    by (rule order_trans[OF length_filter_le]) (rule length_takeWhile_le)
  finally have "unat (nextSubID o_task) + length sent < 2 ^ 64" using assms(2) by simp
  from ids_strictly_increasing[OF this] i
  have s: "sorted_wrt (<) (map subscription_id sent)" by simp
  then have "distinct (map subscription_id sent)" by (simp add: strict_sorted_iff)
  with r i s show ?thesis by simp
qed

theorem subscriber_ids_increase_witness:
  "websocket_loop NewSimulateTask []
      [Request \<lparr>ID = 7, SubscriptionID = 0, Method = ''newPairSubscribe'', Params = []\<rparr> True,
       Request \<lparr>ID = 8, SubscriptionID = 0, Method = ''swapSubscribe'', Params = []\<rparr> True,
       Request \<lparr>ID = 9, SubscriptionID = 0, Method = ''newPairSubscribe'', Params = []\<rparr> True,
       Request \<lparr>ID = 0, SubscriptionID = 0, Method = ''startSimulation'', Params = []\<rparr> True]
     = (\<lparr>nextSubID = 4, pairsSubID = 3, swapsSubID = 2\<rparr>,
        [\<lparr>reply_id = 7, subscription_id = 1\<rparr>, \<lparr>reply_id = 8, subscription_id = 2\<rparr>,
         \<lparr>reply_id = 9, subscription_id = 3\<rparr>], True)
   \<and> unat (nextSubID NewSimulateTask) + (4 :: nat) < 2 ^ 64
   \<and> sorted_wrt (<) (map subscription_id
        [\<lparr>reply_id = 7, subscription_id = 1\<rparr>, \<lparr>reply_id = 8, subscription_id = 2\<rparr>,
         \<lparr>reply_id = 9, subscription_id = 3\<rparr>])
   \<and> distinct (map subscription_id
        [\<lparr>reply_id = 7, subscription_id = 1\<rparr>, \<lparr>reply_id = 8, subscription_id = 2\<rparr>,
         \<lparr>reply_id = 9, subscription_id = 3\<rparr>])"
proof -
  let ?ms = "[Request \<lparr>ID = 7, SubscriptionID = 0, Method = ''newPairSubscribe'', Params = []\<rparr> True,
       Request \<lparr>ID = 8, SubscriptionID = 0, Method = ''swapSubscribe'', Params = []\<rparr> True,
       Request \<lparr>ID = 9, SubscriptionID = 0, Method = ''newPairSubscribe'', Params = []\<rparr> True,
       Request \<lparr>ID = 0, SubscriptionID = 0, Method = ''startSimulation'', Params = []\<rparr> True]"
  let ?sent = "[\<lparr>reply_id = 7, subscription_id = 1\<rparr>, \<lparr>reply_id = 8, subscription_id = 2\<rparr>,
         \<lparr>reply_id = 9, subscription_id = 3 :: u64\<rparr>]"
  have w: "websocket_loop NewSimulateTask [] ?ms
     = (\<lparr>nextSubID = 4, pairsSubID = 3, swapsSubID = 2\<rparr>, ?sent, True)"
    by code_simp
  have l: "unat (nextSubID NewSimulateTask) + length ?ms < 2 ^ 64"
    by (simp add: NewSimulateTask_def)
  from subscriber_ids_increase[OF w l] w l show ?thesis by simp
qed

subsection \<open>The order of the output\<close>
















lemma first_keys_simps [simp]:
  "first_keys U [] = []"
  "first_keys U ([] # seg) = first_keys U seg"
  "first_keys U ((row # l) # seg) = key U row # first_keys U seg"
  by (simp_all add: first_keys_def)












end
